theory Spec2Isabelle
  imports Main
begin

section \<open>The list iterator of \<open>src/getListIterator.ts\<close>\<close>

text \<open>
  \<open>getListIterator(scope, onSwitch, options)\<close> returns a handle whose operations share two
  mutable things: the closure variable \<open>nextIndex\<close> and the timer of \<open>delayedNext\<close>.
  The embedding passes them explicitly in a record, together with the two things outside
  the iterator that its operations read or write: the scope (what its two queries answer)
  and the sequence of \<open>onSwitch\<close> invocations.

  Numbers are the integers the scope reports and milliseconds are naturals. A promise is
  modelled by the value it settles with: \<open>Inl e\<close> is a rejection, \<open>Inr v\<close> a fulfilment.
  An operation runs to the point where its promise settles before the next event is
  looked at, so the event sequences below are those of a caller that awaits each call
  (or of a scope whose queries settle at once). \<open>onSwitch\<close> is a callback of the owner:
  it is given by its effect on the scope, and it does not throw or call the iterator.
\<close>

subsection \<open>Data\<close>

datatype error = Rejected string

record ListIteratorOptions =
  delay :: "nat option"
  loop :: "bool option"

type_synonym NextOptions = ListIteratorOptions

record ListScope =
  getCurrentIndex :: "error + int"
  getSize :: "error + int"

record state =
  scope :: ListScope
  nextIndex :: int
  timer :: "nat option"
  switched :: "int list"

text \<open>
  \<open>timer\<close> is \<open>None\<close> when no firing of \<open>delayedNext\<close> is pending and \<open>Some r\<close> when one
  is due in \<open>r\<close> milliseconds. \<open>switched\<close> lists the arguments \<open>onSwitch\<close> was invoked
  with, oldest first.
\<close>

subsection \<open>JavaScript idioms\<close>

text \<open>A \<open>boolean | undefined\<close> in a condition: only \<open>true\<close> is truthy.\<close>

definition truthy :: "bool option \<Rightarrow> bool" where
  "truthy b = (b = Some True)"

text \<open>\<open>options?.f\<close>: \<open>undefined\<close> when the object is.\<close>

definition optional_field :: "('r \<Rightarrow> 'a option) \<Rightarrow> 'r option \<Rightarrow> 'a option" where
  "optional_field f r = (case r of None \<Rightarrow> None | Some x \<Rightarrow> f x)"

text \<open>
  The parameter pattern \<open>({ f = options?.f } = {})\<close>: an omitted argument is \<open>{}\<close>, and
  a field that is \<open>undefined\<close> takes the constructor's.
\<close>

definition destructure ::
  "('r \<Rightarrow> 'a option) \<Rightarrow> 'r option \<Rightarrow> 'r option \<Rightarrow> 'a option" where
  "destructure f arg options =
     (case optional_field f arg of
        None \<Rightarrow> optional_field f options
      | Some v \<Rightarrow> Some v)"

text \<open>
  \<open>Promise.all([p, q])\<close> of two settled promises. When both reject, the array order
  decides here; no theorem below depends on which of the two reasons is reported.
\<close>

definition promise_all :: "error + int \<Rightarrow> error + int \<Rightarrow> error + int \<times> int" where
  "promise_all p q =
     (case p of
        Inl e \<Rightarrow> Inl e
      | Inr a \<Rightarrow> (case q of Inl e \<Rightarrow> Inl e | Inr b \<Rightarrow> Inr (a, b)))"

subsection \<open>Candidate indices (lines 34 to 54)\<close>

definition getNextItem :: "ListScope \<Rightarrow> bool option \<Rightarrow> error + int" where
  "getNextItem sc lp =
     (case promise_all (getSize sc) (getCurrentIndex sc) of
        Inl e \<Rightarrow> Inl e
      | Inr (sz, currentIndex) \<Rightarrow>
          Inr (if currentIndex = sz - 1 then (if truthy lp then 0 else - 1)
               else min (currentIndex + 1) (sz - 1)))"

definition getPrevItem :: "ListScope \<Rightarrow> bool option \<Rightarrow> error + int" where
  "getPrevItem sc lp =
     (case promise_all (getSize sc) (getCurrentIndex sc) of
        Inl e \<Rightarrow> Inl e
      | Inr (sz, currentIndex) \<Rightarrow>
          Inr (if currentIndex = 0 then (if truthy lp then sz - 1 else - 1)
               else min (currentIndex - 1) (sz - 1)))"

text \<open>Both queries call their helper with no argument: \<open>loop\<close> is \<open>undefined\<close>.\<close>

definition isCanNext :: "state \<Rightarrow> error + bool" where
  "isCanNext s =
     (case getNextItem (scope s) None of Inl e \<Rightarrow> Inl e | Inr i \<Rightarrow> Inr (0 \<le> i))"

definition isCanBack :: "state \<Rightarrow> error + bool" where
  "isCanBack s =
     (case getPrevItem (scope s) None of Inl e \<Rightarrow> Inl e | Inr i \<Rightarrow> Inr (0 \<le> i))"

subsection \<open>The two helpers the file imports\<close>

text \<open>
  Modelled from the spec: \<open>delayed\<close> (\<open>./delayed\<close> is not among the sources). The spec's
  words: it "schedules a callback to run after a configurable delay, cancellable and
  re-delayable before it fires", exposes "schedule/re-delay with a millisecond value,
  cancel, and a readable is-pending flag", and "starting a new one (via re-delay)
  replaces rather than stacks the previous wait". The default wait \<open>0\<close> given at line 59
  is never used: every call of \<open>delay\<close> passes its own. First \<open>delay(ms)\<close>, which
  schedules or re-delays.
\<close>

definition delayed_delay :: "nat \<Rightarrow> state \<Rightarrow> state" where
  "delayed_delay ms s = s\<lparr>timer := Some ms\<rparr>"

text \<open>
  Modelled from the spec: \<open>cancel()\<close> of \<open>delayed\<close>, which "cancels the delay timer
  without invoking the callback".
\<close>

definition delayed_cancel :: "state \<Rightarrow> state" where
  "delayed_cancel s = s\<lparr>timer := None\<rparr>"

text \<open>
  Modelled from the spec: \<open>isPending\<close> of \<open>delayed\<close>, "true while a
  scheduled-but-not-yet-fired forward transition exists".
\<close>

definition isPending :: "state \<Rightarrow> bool" where
  "isPending s = (timer s \<noteq> None)"

text \<open>
  Modelled from the spec: \<open>beforeCall\<close> (\<open>./beforeCall\<close> is not among the sources). The
  spec's words: it "wraps an asynchronous operation so that a synchronous before
  side-effect runs immediately (synchronously) before the asynchronous body begins
  executing, and the overall call still returns the asynchronous body's result". In
  \<open>next\<close> and \<open>back\<close> the first argument is the synchronous function and the second the
  \<open>async\<close> one.
\<close>

definition beforeCall ::
  "('a \<Rightarrow> state \<Rightarrow> state) \<Rightarrow> ('a \<Rightarrow> state \<Rightarrow> (error + 'b) \<times> state) \<Rightarrow>
   'a \<Rightarrow> state \<Rightarrow> (error + 'b) \<times> state" where
  "beforeCall before_fn body arg s = body arg (before_fn arg s)"

subsection \<open>The operations (lines 56 to 80)\<close>

text \<open>An invocation of the owner's callback: recorded, and the scope follows its effect.\<close>

definition invoke_onSwitch :: "(int \<Rightarrow> ListScope \<Rightarrow> ListScope) \<Rightarrow> int \<Rightarrow> state \<Rightarrow> state" where
  "invoke_onSwitch onSwitch i s =
     s\<lparr>switched := switched s @ [i], scope := onSwitch i (scope s)\<rparr>"

text \<open>The callback given to \<open>delayed\<close>: it reads \<open>nextIndex\<close> when it runs.\<close>

definition delayedNext :: "(int \<Rightarrow> ListScope \<Rightarrow> ListScope) \<Rightarrow> state \<Rightarrow> state" where
  "delayedNext onSwitch s = invoke_onSwitch onSwitch (nextIndex s) s"

definition cancel :: "state \<Rightarrow> state" where
  "cancel s = delayed_cancel s"

text \<open>\<open>delay ?? 0\<close> of the destructured \<open>delay\<close>.\<close>

definition effective_delay :: "ListIteratorOptions option \<Rightarrow> NextOptions option \<Rightarrow> nat" where
  "effective_delay options arg =
     (case destructure delay arg options of None \<Rightarrow> 0 | Some ms \<Rightarrow> ms)"

definition next_before :: "ListIteratorOptions option \<Rightarrow> NextOptions option \<Rightarrow> state \<Rightarrow> state" where
  "next_before options arg s =
     (if 0 \<le> nextIndex s then delayed_delay (effective_delay options arg) s else s)"

definition next_body ::
  "ListIteratorOptions option \<Rightarrow> NextOptions option \<Rightarrow> state \<Rightarrow> (error + unit) \<times> state" where
  "next_body options arg s =
     (case getNextItem (scope s) (destructure loop arg options) of
        Inl e \<Rightarrow> (Inl e, s)
      | Inr i \<Rightarrow> (Inr (), s\<lparr>nextIndex := i\<rparr>))"

definition next_op ::
  "ListIteratorOptions option \<Rightarrow> NextOptions option \<Rightarrow> state \<Rightarrow> (error + unit) \<times> state" where
  "next_op options = beforeCall (next_before options) (next_body options)"

definition back_before :: "(int \<Rightarrow> ListScope \<Rightarrow> ListScope) \<Rightarrow> unit \<Rightarrow> state \<Rightarrow> state" where
  "back_before onSwitch u s =
     (if 0 \<le> nextIndex s then invoke_onSwitch onSwitch (nextIndex s) s else s)"

definition back_body :: "unit \<Rightarrow> state \<Rightarrow> (error + unit) \<times> state" where
  "back_body u s =
     (let s1 = cancel s in
      case getPrevItem (scope s1) None of
        Inl e \<Rightarrow> (Inl e, s1)
      | Inr i \<Rightarrow> (Inr (), s1\<lparr>nextIndex := i\<rparr>))"

definition back_op :: "(int \<Rightarrow> ListScope \<Rightarrow> ListScope) \<Rightarrow> state \<Rightarrow> (error + unit) \<times> state" where
  "back_op onSwitch = beforeCall (back_before onSwitch) back_body ()"

text \<open>The state a fresh handle starts from (line 32, and no timer started).\<close>

definition getListIterator :: "ListScope \<Rightarrow> state" where
  "getListIterator sc = \<lparr>scope = sc, nextIndex = - 1, timer = None, switched = []\<rparr>"

subsection \<open>Time and event sequences\<close>

text \<open>
  Modelled from the spec: the firing of \<open>delayed\<close>. When \<open>ms\<close> milliseconds pass, a timer
  due within them runs its callback once and is no longer pending; a later one is that
  much nearer.
\<close>

definition elapse :: "(int \<Rightarrow> ListScope \<Rightarrow> ListScope) \<Rightarrow> nat \<Rightarrow> state \<Rightarrow> state" where
  "elapse onSwitch ms s =
     (case timer s of
        None \<Rightarrow> s
      | Some r \<Rightarrow>
          if r \<le> ms then delayedNext onSwitch (s\<lparr>timer := None\<rparr>)
          else s\<lparr>timer := Some (r - ms)\<rparr>)"

datatype event =
    Next "NextOptions option"
  | Back
  | Cancel
  | Elapse nat
  | SetScope ListScope

fun step ::
  "(int \<Rightarrow> ListScope \<Rightarrow> ListScope) \<Rightarrow> ListIteratorOptions option \<Rightarrow> event \<Rightarrow> state \<Rightarrow> state" where
  "step onSwitch options (Next arg) s = snd (next_op options arg s)"
| "step onSwitch options Back s = snd (back_op onSwitch s)"
| "step onSwitch options Cancel s = cancel s"
| "step onSwitch options (Elapse ms) s = elapse onSwitch ms s"
| "step onSwitch options (SetScope sc) s = s\<lparr>scope := sc\<rparr>"

fun run ::
  "(int \<Rightarrow> ListScope \<Rightarrow> ListScope) \<Rightarrow> ListIteratorOptions option \<Rightarrow> event list \<Rightarrow> state \<Rightarrow> state" where
  "run onSwitch options [] s = s"
| "run onSwitch options (e # es) s = run onSwitch options es (step onSwitch options e s)"

subsection \<open>Vocabulary of the statements\<close>

text \<open>A scope of size \<open>n\<close> at index \<open>c\<close>, both queries resolving.\<close>

definition listScope :: "int \<Rightarrow> int \<Rightarrow> ListScope" where
  "listScope n c = \<lparr>getCurrentIndex = Inr c, getSize = Inr n\<rparr>"

text \<open>Two owners: one moves the cursor to the index it is told, one leaves the scope alone.\<close>

definition moveTo :: "int \<Rightarrow> ListScope \<Rightarrow> ListScope" where
  "moveTo i sc = sc\<lparr>getCurrentIndex := Inr i\<rparr>"

definition keepStill :: "int \<Rightarrow> ListScope \<Rightarrow> ListScope" where
  "keepStill i sc = sc"

text \<open>The constructor options of the spec's end-to-end example.\<close>

definition example_options :: "ListIteratorOptions option" where
  "example_options = Some \<lparr>delay = Some 10, loop = Some False\<rparr>"

text \<open>One of the two scope queries rejects.\<close>

definition scope_rejects :: "ListScope \<Rightarrow> bool" where
  "scope_rejects sc = (isl (getSize sc) \<or> isl (getCurrentIndex sc))"




text \<open>Events that leave the scope to the iterator and its callback.\<close>

fun keeps_scope :: "event \<Rightarrow> bool" where
  "keeps_scope (SetScope sc) = False"
| "keeps_scope e = True"

text \<open>The same, with every \<open>next\<close> call's effective \<open>loop\<close> not \<open>true\<close>.\<close>

fun nonlooping :: "ListIteratorOptions option \<Rightarrow> event \<Rightarrow> bool" where
  "nonlooping options (Next arg) = (destructure loop arg options \<noteq> Some True)"
| "nonlooping options (SetScope sc) = False"
| "nonlooping options e = True"

text \<open>An event that finds no valid candidate in the scope \<open>sc\<close>.\<close>

fun no_move :: "ListIteratorOptions option \<Rightarrow> ListScope \<Rightarrow> event \<Rightarrow> bool" where
  "no_move options sc (Next arg) =
     (case getNextItem sc (destructure loop arg options) of Inl e \<Rightarrow> True | Inr i \<Rightarrow> i < 0)"
| "no_move options sc Back =
     (case getPrevItem sc None of Inl e \<Rightarrow> True | Inr i \<Rightarrow> i < 0)"
| "no_move options sc Cancel = True"
| "no_move options sc (Elapse ms) = True"
| "no_move options sc (SetScope sc') = False"

section \<open>What one operation does to the state\<close>


lemma next_op_switched: "switched (snd (next_op options arg s)) = switched s"
  by (simp add: next_op_def beforeCall_def next_before_def next_body_def delayed_delay_def
      split: sum.splits)

lemma next_op_scope: "scope (snd (next_op options arg s)) = scope s"
  by (simp add: next_op_def beforeCall_def next_before_def next_body_def delayed_delay_def
      split: sum.splits)

lemma next_op_timer:
  "timer (snd (next_op options arg s)) =
     (if 0 \<le> nextIndex s then Some (effective_delay options arg) else timer s)"
  by (simp add: next_op_def beforeCall_def next_before_def next_body_def delayed_delay_def
      split: sum.splits)

lemma next_op_nextIndex:
  "nextIndex (snd (next_op options arg s)) =
     (case getNextItem (scope s) (destructure loop arg options) of
        Inl e \<Rightarrow> nextIndex s
      | Inr i \<Rightarrow> i)"
  by (simp add: next_op_def beforeCall_def next_before_def next_body_def delayed_delay_def
      split: sum.splits)

lemma back_before_nextIndex: "nextIndex (back_before onSwitch u s) = nextIndex s"
  by (simp add: back_before_def invoke_onSwitch_def)

lemma back_before_nonnegative:
  "switched (back_before onSwitch u s) = switched s
   \<or> (\<exists>i. 0 \<le> i \<and> switched (back_before onSwitch u s) = switched s @ [i])"
  by (simp add: back_before_def invoke_onSwitch_def)

lemma back_op_result:
  "back_op onSwitch s =
     (case getPrevItem (scope (back_before onSwitch () s)) None of
        Inl e \<Rightarrow> (Inl e, cancel (back_before onSwitch () s))
      | Inr i \<Rightarrow> (Inr (), cancel (back_before onSwitch () s)\<lparr>nextIndex := i\<rparr>))"
  by (simp add: back_op_def beforeCall_def back_body_def cancel_def delayed_cancel_def Let_def
      split: sum.splits)

lemma back_op_timer: "timer (snd (back_op onSwitch s)) = None"
  by (simp add: back_op_result cancel_def delayed_cancel_def split: sum.splits)

lemma back_op_switched:
  "switched (snd (back_op onSwitch s)) =
     (if 0 \<le> nextIndex s then switched s @ [nextIndex s] else switched s)"
  by (simp add: back_op_result back_before_def invoke_onSwitch_def cancel_def delayed_cancel_def
      split: sum.splits)

lemma back_op_scope:
  "scope (snd (back_op onSwitch s)) =
     (if 0 \<le> nextIndex s then onSwitch (nextIndex s) (scope s) else scope s)"
  by (simp add: back_op_result back_before_def invoke_onSwitch_def cancel_def delayed_cancel_def
      split: sum.splits)

lemma elapse_idle: "timer s = None \<Longrightarrow> elapse onSwitch ms s = s"
  by (simp add: elapse_def)

lemma rejected_candidates:
  assumes "scope_rejects sc"
  shows "\<exists>e. getNextItem sc lp = Inl e \<and> getPrevItem sc lp = Inl e
           \<and> (getSize sc = Inl e \<or> getCurrentIndex sc = Inl e)"
  using assms
  by (auto simp: scope_rejects_def getNextItem_def getPrevItem_def promise_all_def isl_def
      split: sum.splits)

lemmas evaluate =
  next_op_def beforeCall_def next_before_def next_body_def delayed_delay_def
  back_op_def back_before_def back_body_def cancel_def delayed_cancel_def
  elapse_def delayedNext_def invoke_onSwitch_def getListIterator_def
  getNextItem_def getPrevItem_def promise_all_def truthy_def destructure_def optional_field_def
  effective_delay_def isCanNext_def isCanBack_def isPending_def scope_rejects_def
  listScope_def moveTo_def keepStill_def example_options_def

section \<open>Candidate indices\<close>

text \<open>
  C4. When the scope resolves its size \<open>n\<close> and current index \<open>c\<close>, the forward candidate
  is \<open>0\<close> at the last element when looping and \<open>-1\<close> there when not, and
  \<open>min (c + 1) (n - 1)\<close> elsewhere; the backward candidate is \<open>n - 1\<close> at the first
  element when looping and \<open>-1\<close> there when not, and \<open>min (c - 1) (n - 1)\<close> elsewhere.
\<close>

theorem candidate_index_formula:
  assumes "getSize sc = Inr n" and "getCurrentIndex sc = Inr c"
  shows "getNextItem sc lp =
           Inr (if c = n - 1 then (if lp = Some True then 0 else - 1) else min (c + 1) (n - 1))
         \<and> getPrevItem sc lp =
           Inr (if c = 0 then (if lp = Some True then n - 1 else - 1) else min (c - 1) (n - 1))"
  using assms by (simp add: getNextItem_def getPrevItem_def promise_all_def truthy_def)

theorem candidate_index_formula_witness:
  "getNextItem (listScope 3 2) (Some True) = Inr 0
   \<and> getPrevItem (listScope 3 2) (Some True) = Inr 1"
proof -
  have n: "getSize (listScope 3 2) = Inr 3" and c: "getCurrentIndex (listScope 3 2) = Inr 2"
    by (simp_all add: listScope_def)
  from candidate_index_formula [OF n c, of "Some True"] show ?thesis by simp
qed

text \<open>
  C5, at the input where the code leaves it. The claim: \<open>isCanNext\<close> answers for the
  candidate computed with the effective \<open>loop\<close> option, so with the constructor's
  \<open>loop = true\<close> and the cursor at the last element it resolves \<open>true\<close>. The code:
  \<open>isCanNext\<close> takes no options and calls \<open>getNextItem()\<close> with \<open>loop\<close> undefined, so it
  resolves \<open>false\<close> there, although the candidate of the effective option is \<open>0\<close> and
  \<open>next()\<close> commits the move to it.
\<close>

theorem isCanNext_ignores_loop:
  "isCanNext (getListIterator (listScope 3 2)) = Inr False
   \<and> getNextItem (listScope 3 2)
        (destructure loop None (Some \<lparr>delay = None, loop = Some True\<rparr>)) = Inr 0
   \<and> switched (run keepStill (Some \<lparr>delay = None, loop = Some True\<rparr>)
        [Next None, Next None, Elapse 0] (getListIterator (listScope 3 2))) = [0]"
  by (simp add: evaluate)

section \<open>The index the callback is given\<close>

text \<open>
  C1, at the inputs where the code leaves it. The claim: \<open>onSwitch\<close> is never invoked with
  \<open>-1\<close>. The code tests \<open>nextIndex >= 0\<close> when a \<open>next\<close> call starts the timer, the same
  call then stores its own candidate, and the timer's callback passes what is stored when
  it fires. On a scope of size 1, \<open>next({loop: true})\<close> stores \<open>0\<close>; a \<open>next()\<close> after it
  starts the timer and stores \<open>-1\<close>, which the callback receives. On a scope of size 2
  whose owner follows the callback, three \<open>next()\<close> calls end the same way.
\<close>

theorem delayed_switch_gets_negative_index:
  "switched (run keepStill None
      [Next (Some \<lparr>delay = None, loop = Some True\<rparr>), Next None, Elapse 0]
      (getListIterator (listScope 1 0))) = [- 1]
   \<and> switched (run moveTo None
      [Next None, Next None, Elapse 0, Next None, Elapse 0]
      (getListIterator (listScope 2 0))) = [1, - 1]"
  by (simp add: evaluate)

section \<open>Bursts of \<open>next\<close> calls\<close>





section \<open>The end-to-end example\<close>

text \<open>
  C3 as stated fails at its first step: on the fresh iterator (size 3, index 0,
  \<open>loop = false\<close>, delay 10) the first \<open>next()\<close> finds \<open>nextIndex = -1\<close>, starts no timer
  and only stores the candidate \<open>1\<close>. Nothing is switched 10 ms later, nor 1000 ms later.
\<close>

theorem first_next_switches_nothing:
  "switched (run moveTo example_options [Next None, Elapse 10]
      (getListIterator (listScope 3 0))) = []
   \<and> switched (run moveTo example_options [Next None, Elapse 1000]
      (getListIterator (listScope 3 0))) = []
   \<and> \<not> isPending (run moveTo example_options [Next None] (getListIterator (listScope 3 0)))"
  by (simp add: evaluate)

text \<open>
  C3, amended. For a fresh iterator over a scope of size 3 at index 0 whose owner moves
  the cursor to the index \<open>onSwitch\<close> reports, with \<open>loop = false\<close> and delay 10: the
  first \<open>next()\<close> stores the candidate \<open>1\<close>, starts no timer and switches nothing; the
  second \<open>next()\<close> starts the timer, nothing is switched 9 ms later and \<open>onSwitch(1)\<close> has
  fired exactly once 10 ms later; the third \<open>next()\<close> makes \<open>onSwitch(2)\<close> fire 10 ms
  later; the cursor is then at the last element, \<open>isCanNext()\<close> resolves \<open>false\<close> and
  the forward candidate is \<open>-1\<close>.
\<close>

theorem end_to_end_example:
  "switched (run moveTo example_options [Next None, Elapse 10]
      (getListIterator (listScope 3 0))) = []
   \<and> nextIndex (run moveTo example_options [Next None, Elapse 10]
      (getListIterator (listScope 3 0))) = 1
   \<and> \<not> isPending (run moveTo example_options [Next None]
      (getListIterator (listScope 3 0)))
   \<and> isPending (run moveTo example_options [Next None, Elapse 10, Next None]
      (getListIterator (listScope 3 0)))
   \<and> switched (run moveTo example_options [Next None, Elapse 10, Next None, Elapse 9]
      (getListIterator (listScope 3 0))) = []
   \<and> switched (run moveTo example_options [Next None, Elapse 10, Next None, Elapse 10]
      (getListIterator (listScope 3 0))) = [1]
   \<and> switched (run moveTo example_options
      [Next None, Elapse 10, Next None, Elapse 10, Next None, Elapse 10]
      (getListIterator (listScope 3 0))) = [1, 2]
   \<and> isCanNext (run moveTo example_options
      [Next None, Elapse 10, Next None, Elapse 10, Next None, Elapse 10]
      (getListIterator (listScope 3 0))) = Inr False
   \<and> getNextItem (scope (run moveTo example_options
      [Next None, Elapse 10, Next None, Elapse 10, Next None, Elapse 10]
      (getListIterator (listScope 3 0)))) (Some False) = Inr (- 1)"
  by (simp add: evaluate)

section \<open>Going back\<close>

text \<open>
  C6. A call to \<open>back\<close>: if the stored index is valid, \<open>onSwitch\<close> is invoked with it at
  once, in the call itself (and not otherwise), so that the scope the call then queries
  is the one the callback left; the call leaves no timer pending, so that whatever time
  passes afterwards nothing more is switched; and when that scope resolves, with size
  \<open>n\<close> and index \<open>c\<close>, the call succeeds and the index it stores is the backward candidate
  without looping: \<open>-1\<close> at the first element, \<open>min (c - 1) (n - 1)\<close> elsewhere.
\<close>

theorem back_switches_at_once:
  "switched (snd (back_op onSwitch s)) =
     (if 0 \<le> nextIndex s then switched s @ [nextIndex s] else switched s)
   \<and> scope (snd (back_op onSwitch s)) =
     (if 0 \<le> nextIndex s then onSwitch (nextIndex s) (scope s) else scope s)
   \<and> timer (snd (back_op onSwitch s)) = None
   \<and> (\<forall>ms. switched (elapse onSwitch ms (snd (back_op onSwitch s))) =
          switched (snd (back_op onSwitch s)))
   \<and> (\<forall>n c. getSize (scope (snd (back_op onSwitch s))) = Inr n
          \<and> getCurrentIndex (scope (snd (back_op onSwitch s))) = Inr c \<longrightarrow>
        fst (back_op onSwitch s) = Inr ()
        \<and> nextIndex (snd (back_op onSwitch s)) =
            (if c = 0 then - 1 else min (c - 1) (n - 1)))"
proof -
  let ?s' = "snd (back_op onSwitch s)"
  have a: "switched ?s' = (if 0 \<le> nextIndex s then switched s @ [nextIndex s] else switched s)"
    by (rule back_op_switched)
  have a': "scope ?s' = (if 0 \<le> nextIndex s then onSwitch (nextIndex s) (scope s) else scope s)"
    by (rule back_op_scope)
  have b: "timer ?s' = None" by (rule back_op_timer)
  have c: "\<forall>ms. switched (elapse onSwitch ms ?s') = switched ?s'"
    using b by (simp add: elapse_idle)
  have d: "fst (back_op onSwitch s) = Inr ()
        \<and> nextIndex ?s' = (if c = 0 then - 1 else min (c - 1) (n - 1))"
    if n: "getSize (scope ?s') = Inr n" and c: "getCurrentIndex (scope ?s') = Inr c" for n c
  proof -
    let ?b = "back_before onSwitch () s"
    have sc: "scope ?s' = scope ?b"
      by (simp add: back_op_result cancel_def delayed_cancel_def split: sum.splits)
    from n c sc have "getPrevItem (scope ?b) None = Inr (if c = 0 then - 1 else min (c - 1) (n - 1))"
      by (simp add: getPrevItem_def promise_all_def truthy_def)
    then show ?thesis by (simp add: back_op_result)
  qed
  from a a' b c d show ?thesis by blast
qed

theorem back_switches_at_once_witness:
  "switched (snd (back_op moveTo
      \<lparr>scope = listScope 5 4, nextIndex = 3, timer = Some 5, switched = []\<rparr>)) = [3]
   \<and> scope (snd (back_op moveTo
      \<lparr>scope = listScope 5 4, nextIndex = 3, timer = Some 5, switched = []\<rparr>)) = listScope 5 3
   \<and> fst (back_op moveTo
      \<lparr>scope = listScope 5 4, nextIndex = 3, timer = Some 5, switched = []\<rparr>) = Inr ()
   \<and> nextIndex (snd (back_op moveTo
      \<lparr>scope = listScope 5 4, nextIndex = 3, timer = Some 5, switched = []\<rparr>)) = 2
   \<and> switched (elapse moveTo 5 (snd (back_op moveTo
      \<lparr>scope = listScope 5 4, nextIndex = 3, timer = Some 5, switched = []\<rparr>))) = [3]"
proof -
  let ?s = "\<lparr>scope = listScope 5 4, nextIndex = 3, timer = Some 5, switched = []\<rparr>"
  note th = back_switches_at_once [of moveTo ?s]
  from th have sc: "scope (snd (back_op moveTo ?s)) = listScope 5 3"
    by (simp add: moveTo_def listScope_def)
  then have n: "getSize (scope (snd (back_op moveTo ?s))) = Inr 5"
    and c: "getCurrentIndex (scope (snd (back_op moveTo ?s))) = Inr 3"
    by (simp_all add: listScope_def)
  from th n c have r: "fst (back_op moveTo ?s) = Inr ()
      \<and> nextIndex (snd (back_op moveTo ?s)) = (if (3::int) = 0 then - 1 else min (3 - 1) (5 - 1))"
    by blast
  from th sc r show ?thesis by simp
qed

section \<open>A scope that rejects\<close>

text \<open>
  C7. If a scope query rejects while \<open>next\<close>, \<open>isCanNext\<close> or \<open>isCanBack\<close> runs, the call
  fails with the scope's own rejection and \<open>nextIndex\<close> keeps its value; the same holds
  for \<open>back\<close>, whose queries see the scope as its before-phase left it.
\<close>

theorem scope_failure_propagates:
  "(scope_rejects (scope s) \<longrightarrow>
      (\<exists>e. fst (next_op options arg s) = Inl e
          \<and> (getSize (scope s) = Inl e \<or> getCurrentIndex (scope s) = Inl e))
      \<and> nextIndex (snd (next_op options arg s)) = nextIndex s
      \<and> (\<exists>e. isCanNext s = Inl e
          \<and> (getSize (scope s) = Inl e \<or> getCurrentIndex (scope s) = Inl e))
      \<and> (\<exists>e. isCanBack s = Inl e
          \<and> (getSize (scope s) = Inl e \<or> getCurrentIndex (scope s) = Inl e)))
   \<and> (scope_rejects (scope (back_before onSwitch () s)) \<longrightarrow>
      (\<exists>e. fst (back_op onSwitch s) = Inl e
          \<and> (getSize (scope (back_before onSwitch () s)) = Inl e
             \<or> getCurrentIndex (scope (back_before onSwitch () s)) = Inl e))
      \<and> nextIndex (snd (back_op onSwitch s)) = nextIndex s)"
proof (intro conjI impI)
  assume r: "scope_rejects (scope s)"
  from rejected_candidates [OF r, of "destructure loop arg options"]
  obtain e where e: "getNextItem (scope s) (destructure loop arg options) = Inl e"
    "getSize (scope s) = Inl e \<or> getCurrentIndex (scope s) = Inl e" by blast
  then have "fst (next_op options arg s) = Inl e"
    by (simp add: next_op_def beforeCall_def next_body_def next_before_def delayed_delay_def)
  with e(2) show "\<exists>e. fst (next_op options arg s) = Inl e
          \<and> (getSize (scope s) = Inl e \<or> getCurrentIndex (scope s) = Inl e)" by blast
  from e(1) show "nextIndex (snd (next_op options arg s)) = nextIndex s"
    by (simp add: next_op_nextIndex)
  from rejected_candidates [OF r, of None]
  show "\<exists>e. isCanNext s = Inl e
          \<and> (getSize (scope s) = Inl e \<or> getCurrentIndex (scope s) = Inl e)"
    by (auto simp: isCanNext_def)
  from rejected_candidates [OF r, of None]
  show "\<exists>e. isCanBack s = Inl e
          \<and> (getSize (scope s) = Inl e \<or> getCurrentIndex (scope s) = Inl e)"
    by (auto simp: isCanBack_def)
next
  let ?b = "back_before onSwitch () s"
  assume r: "scope_rejects (scope ?b)"
  from rejected_candidates [OF r, of None]
  obtain e where e: "getPrevItem (scope ?b) None = Inl e"
    "getSize (scope ?b) = Inl e \<or> getCurrentIndex (scope ?b) = Inl e" by blast
  from e(1) have res: "back_op onSwitch s = (Inl e, cancel ?b)"
    by (simp add: back_op_result)
  with e(2) show "\<exists>e. fst (back_op onSwitch s) = Inl e
          \<and> (getSize (scope ?b) = Inl e \<or> getCurrentIndex (scope ?b) = Inl e)" by simp
  from res show "nextIndex (snd (back_op onSwitch s)) = nextIndex s"
    by (simp add: cancel_def delayed_cancel_def back_before_nextIndex)
qed

theorem scope_failure_propagates_witness:
  "scope_rejects \<lparr>getCurrentIndex = Inr 1, getSize = Inl (Rejected ''offline'')\<rparr>
   \<and> fst (next_op None None
        \<lparr>scope = \<lparr>getCurrentIndex = Inr 1, getSize = Inl (Rejected ''offline'')\<rparr>,
         nextIndex = 2, timer = None, switched = []\<rparr>) = Inl (Rejected ''offline'')
   \<and> nextIndex (snd (next_op None None
        \<lparr>scope = \<lparr>getCurrentIndex = Inr 1, getSize = Inl (Rejected ''offline'')\<rparr>,
         nextIndex = 2, timer = None, switched = []\<rparr>)) = 2
   \<and> fst (back_op keepStill
        \<lparr>scope = \<lparr>getCurrentIndex = Inr 1, getSize = Inl (Rejected ''offline'')\<rparr>,
         nextIndex = 2, timer = None, switched = []\<rparr>) = Inl (Rejected ''offline'')
   \<and> nextIndex (snd (back_op keepStill
        \<lparr>scope = \<lparr>getCurrentIndex = Inr 1, getSize = Inl (Rejected ''offline'')\<rparr>,
         nextIndex = 2, timer = None, switched = []\<rparr>)) = 2"
proof -
  let ?sc = "\<lparr>getCurrentIndex = Inr 1, getSize = Inl (Rejected ''offline'')\<rparr>"
  let ?s = "\<lparr>scope = ?sc, nextIndex = 2, timer = None, switched = []\<rparr>"
  have h: "scope_rejects ?sc" by (simp add: scope_rejects_def)
  then have h1: "scope_rejects (scope ?s)" by simp
  have h2: "scope_rejects (scope (back_before keepStill () ?s))"
    by (simp add: back_before_def invoke_onSwitch_def keepStill_def scope_rejects_def)
  have sc: "scope (back_before keepStill () ?s) = ?sc"
    by (simp add: back_before_def invoke_onSwitch_def keepStill_def)
  from scope_failure_propagates [of ?s None None keepStill] h h1 h2 sc show ?thesis
    by auto
qed

section \<open>Cancelling\<close>

text \<open>
  C8. \<open>cancel\<close> invokes nothing and leaves the stored index and the scope as they are; no
  timer is pending after it, so that no time that passes makes the callback run; and when
  the stored index is valid, a \<open>next\<close> call after it starts the timer anew, with that
  call's effective delay.
\<close>

theorem cancel_keeps_target:
  "switched (cancel s) = switched s
   \<and> nextIndex (cancel s) = nextIndex s
   \<and> scope (cancel s) = scope s
   \<and> \<not> isPending (cancel s)
   \<and> (\<forall>ms. elapse onSwitch ms (cancel s) = cancel s)
   \<and> (0 \<le> nextIndex s \<longrightarrow>
        timer (snd (next_op options arg (cancel s))) = Some (effective_delay options arg)
        \<and> isPending (snd (next_op options arg (cancel s))))"
  by (simp add: cancel_def delayed_cancel_def isPending_def elapse_def next_op_timer)

theorem cancel_keeps_target_witness:
  "switched (elapse moveTo 10 (cancel
      \<lparr>scope = listScope 3 0, nextIndex = 1, timer = Some 10, switched = []\<rparr>)) = []
   \<and> nextIndex (cancel
      \<lparr>scope = listScope 3 0, nextIndex = 1, timer = Some 10, switched = []\<rparr>) = 1
   \<and> timer (snd (next_op example_options None (cancel
      \<lparr>scope = listScope 3 0, nextIndex = 1, timer = Some 10, switched = []\<rparr>))) = Some 10"
proof -
  let ?s = "\<lparr>scope = listScope 3 0, nextIndex = 1, timer = Some 10, switched = []\<rparr>"
  have h: "0 \<le> nextIndex ?s" by simp
  have d: "effective_delay example_options None = 10"
    by (simp add: effective_delay_def destructure_def optional_field_def example_options_def)
  from cancel_keeps_target [of ?s moveTo example_options None] h d show ?thesis
    by simp
qed

section \<open>Scopes with nowhere to go\<close>

text \<open>Events that find no candidate leave a quiet iterator quiet.\<close>

lemma no_move_step:
  assumes "no_move options sc e" and "scope s = sc" and "nextIndex s < 0" and "timer s = None"
  shows "scope (step onSwitch options e s) = sc \<and> nextIndex (step onSwitch options e s) < 0
         \<and> timer (step onSwitch options e s) = None
         \<and> switched (step onSwitch options e s) = switched s"
proof (cases e)
  case (Next arg)
  with assms show ?thesis
    by (simp add: next_op_scope next_op_timer next_op_switched next_op_nextIndex
        split: sum.splits)
next
  case Back
  with assms show ?thesis
    by (simp add: back_op_result back_before_def cancel_def delayed_cancel_def
        split: sum.splits)
next
  case Cancel
  with assms show ?thesis by (simp add: cancel_def delayed_cancel_def)
next
  case (Elapse ms)
  with assms show ?thesis by (simp add: elapse_def)
next
  case (SetScope sc')
  with assms show ?thesis by simp
qed

lemma no_move_run:
  "\<forall>e\<in>set es. no_move options sc e \<Longrightarrow> scope s = sc \<Longrightarrow> nextIndex s < 0
   \<Longrightarrow> timer s = None
   \<Longrightarrow> scope (run onSwitch options es s) = sc \<and> nextIndex (run onSwitch options es s) < 0
         \<and> timer (run onSwitch options es s) = None
         \<and> switched (run onSwitch options es s) = switched s"
proof (induction es arbitrary: s)
  case Nil
  then show ?case by simp
next
  case (Cons e es)
  from Cons.prems have "no_move options sc e" by simp
  from no_move_step [OF this Cons.prems(2,3,4), of onSwitch]
  have st: "scope (step onSwitch options e s) = sc" "nextIndex (step onSwitch options e s) < 0"
    "timer (step onSwitch options e s) = None"
    "switched (step onSwitch options e s) = switched s" by simp_all
  from Cons.prems(1) have "\<forall>e\<in>set es. no_move options sc e" by simp
  from Cons.IH [OF this st(1,2,3)] st(4) show ?case by simp
qed

lemma empty_scope_candidates:
  "getNextItem (listScope 0 0) lp = Inr (- 1) \<and> getPrevItem (listScope 0 0) lp = Inr (- 1)"
  by (simp add: listScope_def getNextItem_def getPrevItem_def promise_all_def)

lemma empty_scope_no_move: "keeps_scope e \<Longrightarrow> no_move options (listScope 0 0) e"
  by (cases e) (simp_all add: empty_scope_candidates)

lemma single_scope_no_move: "nonlooping options e \<Longrightarrow> no_move options (listScope 1 0) e"
  by (cases e)
    (simp_all add: listScope_def getNextItem_def getPrevItem_def promise_all_def truthy_def)

text \<open>
  C9. Over a scope that reports size 0 and index 0, both candidates are \<open>-1\<close> whatever the
  loop option, \<open>isCanNext\<close> and \<open>isCanBack\<close> resolve \<open>false\<close>, and after any sequence of
  \<open>next\<close>, \<open>back\<close> and \<open>cancel\<close> calls and waits on a fresh iterator nothing has been
  switched and no timer is pending.
\<close>

theorem empty_scope_never_switches:
  "getNextItem (listScope 0 0) lp = Inr (- 1)
   \<and> getPrevItem (listScope 0 0) lp = Inr (- 1)
   \<and> isCanNext (getListIterator (listScope 0 0)) = Inr False
   \<and> isCanBack (getListIterator (listScope 0 0)) = Inr False
   \<and> (\<forall>es. (\<forall>e\<in>set es. keeps_scope e) \<longrightarrow>
        switched (run onSwitch options es (getListIterator (listScope 0 0))) = []
        \<and> \<not> isPending (run onSwitch options es (getListIterator (listScope 0 0))))"
proof -
  have q: "isCanNext (getListIterator (listScope 0 0)) = Inr False
           \<and> isCanBack (getListIterator (listScope 0 0)) = Inr False"
    by (simp add: isCanNext_def isCanBack_def getListIterator_def empty_scope_candidates)
  have r: "switched (run onSwitch options es (getListIterator (listScope 0 0))) = []
        \<and> \<not> isPending (run onSwitch options es (getListIterator (listScope 0 0)))"
    if "\<forall>e\<in>set es. keeps_scope e" for es
  proof -
    from that have "\<forall>e\<in>set es. no_move options (listScope 0 0) e"
      by (simp add: empty_scope_no_move)
    from no_move_run [OF this, of "getListIterator (listScope 0 0)" onSwitch]
    show ?thesis by (simp add: getListIterator_def isPending_def)
  qed
  from q r empty_scope_candidates show ?thesis by blast
qed

theorem empty_scope_never_switches_witness:
  "switched (run moveTo (Some \<lparr>delay = Some 10, loop = Some True\<rparr>)
      [Next None, Elapse 10, Back, Next (Some \<lparr>delay = Some 0, loop = Some True\<rparr>), Elapse 10,
       Cancel, Back]
      (getListIterator (listScope 0 0))) = []
   \<and> getNextItem (listScope 0 0) (Some True) = Inr (- 1)
   \<and> getPrevItem (listScope 0 0) (Some True) = Inr (- 1)"
proof -
  let ?es = "[Next None, Elapse 10, Back, Next (Some \<lparr>delay = Some 0, loop = Some True\<rparr>),
              Elapse 10, Cancel, Back]"
  have h: "\<forall>e\<in>set ?es. keeps_scope e" by simp
  from empty_scope_never_switches
    [of "Some True" moveTo "Some \<lparr>delay = Some 10, loop = Some True\<rparr>"] h
  show ?thesis by blast
qed

text \<open>
  C10. Over a scope that reports size 1 and index 0, the forward candidate is \<open>0\<close>, the
  index the cursor is at, when the loop option is \<open>true\<close>, and \<open>-1\<close> otherwise. With the
  effective loop option \<open>true\<close>, the forward transition of a fresh iterator (the second
  \<open>next\<close> call starts the timer) invokes \<open>onSwitch(0)\<close>. With the effective loop option
  not \<open>true\<close> in every \<open>next\<close> call, nothing is ever switched and no timer is pending.
\<close>

theorem single_scope_self_move:
  "getNextItem (listScope 1 0) (Some True) = Inr 0
   \<and> (lp \<noteq> Some True \<longrightarrow> getNextItem (listScope 1 0) lp = Inr (- 1))
   \<and> (destructure loop arg options = Some True \<longrightarrow>
        switched (run onSwitch options
          [Next arg, Next arg, Elapse (effective_delay options arg)]
          (getListIterator (listScope 1 0))) = [0])
   \<and> (\<forall>es. (\<forall>e\<in>set es. nonlooping options e) \<longrightarrow>
        switched (run onSwitch options es (getListIterator (listScope 1 0))) = []
        \<and> \<not> isPending (run onSwitch options es (getListIterator (listScope 1 0))))"
proof -
  have a: "getNextItem (listScope 1 0) (Some True) = Inr 0"
    by (simp add: listScope_def getNextItem_def promise_all_def truthy_def)
  have b: "lp \<noteq> Some True \<longrightarrow> getNextItem (listScope 1 0) lp = Inr (- 1)"
    by (simp add: listScope_def getNextItem_def promise_all_def truthy_def)
  have c: "switched (run onSwitch options
          [Next arg, Next arg, Elapse (effective_delay options arg)]
          (getListIterator (listScope 1 0))) = [0]"
    if "destructure loop arg options = Some True"
    using that a
    by (simp add: next_op_def beforeCall_def next_before_def next_body_def delayed_delay_def
        elapse_def delayedNext_def invoke_onSwitch_def getListIterator_def)
  have d: "switched (run onSwitch options es (getListIterator (listScope 1 0))) = []
        \<and> \<not> isPending (run onSwitch options es (getListIterator (listScope 1 0)))"
    if "\<forall>e\<in>set es. nonlooping options e" for es
  proof -
    from that have "\<forall>e\<in>set es. no_move options (listScope 1 0) e"
      by (simp add: single_scope_no_move)
    from no_move_run [OF this, of "getListIterator (listScope 1 0)" onSwitch]
    show ?thesis by (simp add: getListIterator_def isPending_def)
  qed
  from a b c d show ?thesis by blast
qed

theorem single_scope_self_move_witness:
  "switched (run keepStill (Some \<lparr>delay = Some 10, loop = Some True\<rparr>)
      [Next None, Next None, Elapse 10] (getListIterator (listScope 1 0))) = [0]
   \<and> getNextItem (listScope 1 0) None = Inr (- 1)
   \<and> switched (run keepStill None [Next None, Elapse 10, Next None, Back, Elapse 10]
      (getListIterator (listScope 1 0))) = []"
proof -
  let ?o = "Some \<lparr>delay = Some 10, loop = Some True\<rparr>"
  have h1: "destructure loop None ?o = Some True"
    by (simp add: destructure_def optional_field_def)
  have d: "effective_delay ?o None = 10"
    by (simp add: effective_delay_def destructure_def optional_field_def)
  have h2: "\<forall>e\<in>set [Next None, Elapse 10, Next None, Back, Elapse 10]. nonlooping None e"
    by (simp add: destructure_def optional_field_def)
  have h3: "(None :: bool option) \<noteq> Some True" by simp
  from single_scope_self_move [of None None ?o keepStill] h1 d
  have a: "switched (run keepStill ?o [Next None, Next None, Elapse 10]
      (getListIterator (listScope 1 0))) = [0]" by simp
  from single_scope_self_move [of None None None keepStill] h2 h3
  have b: "getNextItem (listScope 1 0) None = Inr (- 1)
     \<and> switched (run keepStill None [Next None, Elapse 10, Next None, Back, Elapse 10]
      (getListIterator (listScope 1 0))) = []" by blast
  from a b show ?thesis by simp
qed

end
